theory Spec2Isabelle
  imports Main
begin

section \<open>JavaScript values and the object store\<close>

text \<open>
  \<^verbatim>\<open>Sec3_Digitopia.js\<close> keeps its per-principal state in two object literals,
  \<^verbatim>\<open>const penalties = {}\<close> and \<^verbatim>\<open>const reputation = {}\<close>, indexed by a string taken
  from the request. A property read on such an object does not stop at the object's own
  properties: it continues along the prototype chain, which for an object literal is
  \<^verbatim>\<open>Object.prototype\<close>. So \<^verbatim>\<open>penalties["constructor"]\<close> is the function \<^verbatim>\<open>Object\<close>
  and \<^verbatim>\<open>penalties["__proto__"]\<close> is \<^verbatim>\<open>Object.prototype\<close> itself, both of them objects
  (and so truthy) although the table has no entry under these keys. The store below
  models this: every object is a finite map of its own properties, and a read that finds
  no own property falls back to \<^verbatim>\<open>Object.prototype\<close>.

  The numbers of the program are timestamps in milliseconds, counters and scores: all of
  them integers far below \<open>2^53\<close>, where the arithmetic of doubles is exact. They are
  modelled as \<open>int\<close>; \<open>NaN\<close> and \<open>undefined\<close> are values of their own.
\<close>

datatype ref =
    Penalties                \<comment> \<open>the object \<^verbatim>\<open>penalties\<close>\<close>
  | Reputation               \<comment> \<open>the object \<^verbatim>\<open>reputation\<close>\<close>
  | PenaltyRec string        \<comment> \<open>the record created for a key by \<^verbatim>\<open>rateLimitHandlerFactory\<close>\<close>
  | ReputationRec string     \<comment> \<open>the record created for a key by \<^verbatim>\<open>updateReputation\<close>\<close>
  | Member string            \<comment> \<open>a function that every object inherits, such as \<^verbatim>\<open>Object\<close>\<close>
  | ObjectPrototype          \<comment> \<open>\<^verbatim>\<open>Object.prototype\<close>\<close>

datatype jsval = Undefined | NaN | Num int | Ref ref

type_synonym props = "string \<rightharpoonup> jsval"
type_synonym heap = "ref \<Rightarrow> props"

text \<open>The store when the process starts: both tables empty, nothing added to any built-in object.\<close>

definition init :: heap where
  "init = (\<lambda>r. Map.empty)"

text \<open>The names that \<^verbatim>\<open>Object.prototype\<close> defines (Node.js); each but \<^verbatim>\<open>__proto__\<close> is a function.\<close>

definition object_prototype_members :: "string list" where
  "object_prototype_members =
     [''constructor'', ''hasOwnProperty'', ''isPrototypeOf'', ''propertyIsEnumerable'',
      ''toLocaleString'', ''toString'', ''valueOf'', ''__defineGetter__'',
      ''__defineSetter__'', ''__lookupGetter__'', ''__lookupSetter__'']"

definition builtin :: "string \<Rightarrow> jsval" where
  "builtin name =
     (if name = ''__proto__'' then Ref ObjectPrototype
      else if name \<in> set object_prototype_members then Ref (Member name)
      else Undefined)"

text \<open>
  What an object inherits under \<open>name\<close>: a property that the program has added to
  \<^verbatim>\<open>Object.prototype\<close>, or one of its built-in members.
\<close>

definition inherited :: "heap \<Rightarrow> string \<Rightarrow> jsval" where
  "inherited h name = (case h ObjectPrototype name of Some v \<Rightarrow> v | None \<Rightarrow> builtin name)"

text \<open>
  \<^verbatim>\<open>o[name]\<close> for an object \<open>o\<close>. The program reads the two tables under arbitrary keys and
  every other object only under the four field names \<^verbatim>\<open>violations\<close>, \<^verbatim>\<open>blockedUntil\<close>,
  \<^verbatim>\<open>score\<close> and \<^verbatim>\<open>lastUpdated\<close>, which neither \<^verbatim>\<open>Function.prototype\<close> nor
  \<^verbatim>\<open>Number.prototype\<close> defines.
\<close>

definition lookup :: "heap \<Rightarrow> ref \<Rightarrow> string \<Rightarrow> jsval" where
  "lookup h r name = (case h r name of Some v \<Rightarrow> v | None \<Rightarrow> inherited h name)"

text \<open>
  \<^verbatim>\<open>v.name\<close> for a value \<open>v\<close>. A number is boxed, and the box inherits from
  \<^verbatim>\<open>Object.prototype\<close>. The program reads a property of \<open>v\<close> only where \<open>v\<close> is truthy,
  so the read of \<^verbatim>\<open>undefined\<close>, a TypeError, does not occur.
\<close>

definition get_prop :: "heap \<Rightarrow> jsval \<Rightarrow> string \<Rightarrow> jsval" where
  "get_prop h v name =
     (case v of Ref r \<Rightarrow> lookup h r name
      | Num n \<Rightarrow> inherited h name
      | NaN \<Rightarrow> inherited h name
      | Undefined \<Rightarrow> Undefined)"

text \<open>
  \<^verbatim>\<open>v.name = x\<close>. On an object it sets an own property; on a number it has no effect
  (the file is not in strict mode).
\<close>

definition put_prop :: "heap \<Rightarrow> jsval \<Rightarrow> string \<Rightarrow> jsval \<Rightarrow> heap" where
  "put_prop h v name x = (case v of Ref r \<Rightarrow> h(r := (h r)(name \<mapsto> x)) | _ \<Rightarrow> h)"

fun truthy :: "jsval \<Rightarrow> bool" where
  "truthy Undefined = False"
| "truthy NaN = False"
| "truthy (Num n) = (n \<noteq> 0)"
| "truthy (Ref r) = True"

text \<open>
  The operators, on the operands the program gives them: numbers, \<^verbatim>\<open>NaN\<close> and
  \<^verbatim>\<open>undefined\<close> (which converts to \<^verbatim>\<open>NaN\<close>).
\<close>

fun js_add :: "jsval \<Rightarrow> jsval \<Rightarrow> jsval" where
  "js_add (Num a) (Num b) = Num (a + b)"
| "js_add a b = NaN"

fun js_sub :: "jsval \<Rightarrow> jsval \<Rightarrow> jsval" where
  "js_sub (Num a) (Num b) = Num (a - b)"
| "js_sub a b = NaN"

fun js_gt :: "jsval \<Rightarrow> jsval \<Rightarrow> bool" where
  "js_gt (Num a) (Num b) = (a > b)"
| "js_gt a b = False"

fun js_le :: "jsval \<Rightarrow> jsval \<Rightarrow> bool" where
  "js_le (Num a) (Num b) = (a \<le> b)"
| "js_le a b = False"

fun Math_min :: "jsval \<Rightarrow> jsval \<Rightarrow> jsval" where
  "Math_min (Num a) (Num b) = Num (min a b)"
| "Math_min a b = NaN"

fun Math_max :: "jsval \<Rightarrow> jsval \<Rightarrow> jsval" where
  "Math_max (Num a) (Num b) = Num (max a b)"
| "Math_max a b = NaN"

text \<open>
  \<^verbatim>\<open>Math.round(x / d)\<close> for a positive integer \<open>d\<close>: the nearest integer, a half rounded
  up, which is the floor of \<open>x / d + 1 / 2\<close>.
\<close>

fun round_div :: "jsval \<Rightarrow> int \<Rightarrow> jsval" where
  "round_div (Num x) d = Num ((2 * x + d) div (2 * d))"
| "round_div v d = NaN"

section \<open>Requests\<close>

text \<open>
  A request is its header map (Node.js gives the names in lower case), the key that the
  library function \<^verbatim>\<open>ipKeyGenerator\<close> returns for it, as a string, and the flag that
  \<^verbatim>\<open>detectTorVpn\<close> attaches, which is \<^verbatim>\<open>undefined\<close> until then.
\<close>

record request =
  headers :: "string \<rightharpoonup> string"
  ipKey :: string
  isTorVpn :: "bool option"

definition getUserKey :: "request \<Rightarrow> string" where
  "getUserKey req =
     (case headers req ''x-user-id'' of
        Some v \<Rightarrow> if v \<noteq> [] then v else ipKey req
      | None \<Rightarrow> ipKey req)"

text \<open>
  \<^verbatim>\<open>(req.headers["accept-language"] || "en").toLowerCase().startsWith("ar")\<close>: only
  \<open>A\<close> and \<open>R\<close> become \<open>a\<close> and \<open>r\<close> in lower case.
\<close>

definition isArabic :: "request \<Rightarrow> bool" where
  "isArabic req =
     (let lang = (case headers req ''accept-language'' of
                    Some v \<Rightarrow> if v \<noteq> [] then v else ''en''
                  | None \<Rightarrow> ''en'')
      in case lang of
           c1 # c2 # rest \<Rightarrow> (c1 = CHR ''a'' \<or> c1 = CHR ''A'') \<and> (c2 = CHR ''r'' \<or> c2 = CHR ''R'')
         | _ \<Rightarrow> False)"

definition humanMinutes :: "jsval \<Rightarrow> jsval" where
  "humanMinutes ms = round_div ms 60000"

definition computeBlockMs :: "jsval \<Rightarrow> int" where
  "computeBlockMs violations =
     (if violations = Num 1 then 1 * 60 * 1000
      else if violations = Num 2 then 5 * 60 * 1000
      else 60 * 60 * 1000)"

section \<open>Suspicion signal\<close>

text \<open>\<^verbatim>\<open>s.split(",")\<close>: the pieces between the commas, one more than there are commas.\<close>

fun split_on :: "char \<Rightarrow> string \<Rightarrow> string list" where
  "split_on c [] = [[]]"
| "split_on c (x # xs) =
     (if x = c then [] # split_on c xs
      else (case split_on c xs of p # ps \<Rightarrow> (x # p) # ps | [] \<Rightarrow> [[x]]))"

text \<open>A header value in a condition: \<^verbatim>\<open>undefined\<close> and the empty string are falsy.\<close>

definition truthy_header :: "string option \<Rightarrow> bool" where
  "truthy_header v = (case v of Some s \<Rightarrow> s \<noteq> [] | None \<Rightarrow> False)"

definition detectTorVpn :: "request \<Rightarrow> request" where
  "detectTorVpn req =
     (let forwarded = headers req ''x-forwarded-for'';
          via = headers req ''via'';
          torHeader = headers req ''x-tor-exit-node'';
          suspicious = False;
          suspicious = (if truthy_header forwarded \<or> truthy_header via \<or> truthy_header torHeader
                        then True else suspicious);
          suspicious = (if truthy_header forwarded
                           \<and> length (split_on CHR '','' (case forwarded of Some s \<Rightarrow> s | None \<Rightarrow> [])) > 1
                        then True else suspicious)
      in req\<lparr>isTorVpn := Some suspicious\<rparr>)"

section \<open>Reputation\<close>

text \<open>
  \<^verbatim>\<open>updateReputation\<close> has no \<^verbatim>\<open>return\<close> statement: the value of a call is
  \<^verbatim>\<open>undefined\<close>. It reads the clock when it creates the record and again when it stamps
  it; the second reading overwrites the first, and \<open>now\<close> stands for it.
\<close>

definition updateReputation :: "heap \<Rightarrow> string \<Rightarrow> int \<Rightarrow> int \<Rightarrow> jsval \<times> heap" where
  "updateReputation h userKey change now =
     (let h1 = (if \<not> truthy (lookup h Reputation userKey)
                then h(ReputationRec userKey := [''score'' \<mapsto> Num 100, ''lastUpdated'' \<mapsto> Num now],
                       Reputation := (h Reputation)(userKey \<mapsto> Ref (ReputationRec userKey)))
                else h);
          h2 = put_prop h1 (lookup h1 Reputation userKey) ''score''
                 (js_add (get_prop h1 (lookup h1 Reputation userKey) ''score'') (Num change));
          h3 = put_prop h2 (lookup h2 Reputation userKey) ''lastUpdated'' (Num now);
          h4 = put_prop h3 (lookup h3 Reputation userKey) ''score''
                 (Math_max (Num 0)
                    (Math_min (Num 200) (get_prop h3 (lookup h3 Reputation userKey) ''score'')))
      in (Undefined, h4))"

definition getReputation :: "heap \<Rightarrow> string \<Rightarrow> jsval" where
  "getReputation h userKey =
     (if truthy (lookup h Reputation userKey)
      then get_prop h (lookup h Reputation userKey) ''score''
      else Num 100)"

section \<open>Responses\<close>

text \<open>
  The texts of the messages are kept as their template and the numbers put into it; the
  English template chooses \<open>minute\<close> or \<open>minutes\<close> from the same number.
\<close>

datatype message =
    BlockedEn jsval
  | BlockedArOne
  | BlockedAr jsval
  | ExceededEn int jsval
  | ExceededArOne int
  | ExceededAr int jsval
  | ReportReceivedEn
  | ReportReceivedAr
  | UploadedEn
  | UploadedAr
  | UserRequired

text \<open>
  The JSON bodies, named by their status. \<^verbatim>\<open>unblockTime\<close> holds the timestamp that the
  source formats with \<^verbatim>\<open>new Date(...).toISOString()\<close>. That call throws a
  \<^verbatim>\<open>RangeError\<close> when the value is not a time that \<^verbatim>\<open>Date\<close> can hold; the request is
  then answered by the error handling of Express, outside the source, and \<open>Thrown\<close>
  stands for that answer.
\<close>

datatype js_error = RangeError

datatype response =
    Blocked403 (error: message) (blockedForMinutes: jsval) (remainingSeconds: jsval)
  | RateLimited429 (error: message) (limit: int) (blockedForMinutes: jsval)
      (violations: jsval) (unblockTime: jsval) (reputation: jsval)
      (torVpnSuspected: "bool option")
  | Ok200 "message option" "jsval option" "bool option"
  | BadRequest400 message
  | Cleared200 string
  | Thrown js_error

text \<open>A middleware either answers or calls \<^verbatim>\<open>next()\<close>.\<close>

datatype outcome = Respond response | Next

section \<open>Admission gate\<close>

text \<open>The 403 answer of \<^verbatim>\<open>checkBlocked\<close>, built from \<^verbatim>\<open>remainingMs\<close>.\<close>

definition blocked_response :: "request \<Rightarrow> jsval \<Rightarrow> response" where
  "blocked_response req remainingMs =
     (let remainingMinutes = humanMinutes remainingMs;
          msgEn = BlockedEn remainingMinutes;
          msgAr = (if remainingMinutes = Num 1 then BlockedArOne
                   else BlockedAr remainingMinutes)
      in Blocked403 (if isArabic req then msgAr else msgEn)
           remainingMinutes (round_div remainingMs 1000))"

definition checkBlocked :: "heap \<Rightarrow> request \<Rightarrow> int \<Rightarrow> outcome \<times> heap" where
  "checkBlocked h req now =
     (let key = getUserKey req;
          entry = lookup h Penalties key
      in if truthy entry \<and> truthy (get_prop h entry ''blockedUntil'')
            \<and> js_gt (get_prop h entry ''blockedUntil'') (Num now)
         then
           (let remainingMs = js_sub (get_prop h entry ''blockedUntil'') (Num now)
            in (Respond (blocked_response req remainingMs), h))
         else if truthy entry \<and> truthy (get_prop h entry ''blockedUntil'')
                 \<and> js_le (get_prop h entry ''blockedUntil'') (Num now)
         then (Next, put_prop h entry ''blockedUntil'' (Num 0))
         else (Next, h))"

text \<open>Calls of \<^verbatim>\<open>checkBlocked\<close> for one request at successive readings of the clock.\<close>

fun checkBlocked_repeat :: "heap \<Rightarrow> request \<Rightarrow> int list \<Rightarrow> outcome list \<times> heap" where
  "checkBlocked_repeat h req [] = ([], h)"
| "checkBlocked_repeat h req (t # ts) =
     (case checkBlocked h req t of
        (out, h1) \<Rightarrow> (case checkBlocked_repeat h1 req ts of (outs, h2) \<Rightarrow> (out # outs, h2)))"

section \<open>Penalty escalation\<close>

text \<open>
  \<^verbatim>\<open>new Date(v).toISOString()\<close> succeeds when \<open>v\<close> is a number of at most 8.64e15 in
  absolute value, the range of \<^verbatim>\<open>Date\<close>; for \<^verbatim>\<open>NaN\<close>, \<^verbatim>\<open>undefined\<close> and an object that
  is no date it throws.
\<close>

definition valid_time :: "jsval \<Rightarrow> bool" where
  "valid_time v = (case v of Num t \<Rightarrow> \<bar>t\<bar> \<le> 8640000000000000 | _ \<Rightarrow> False)"

text \<open>
  The function that \<^verbatim>\<open>rateLimitHandlerFactory(max)\<close> returns. The body of its answer is
  built after all changes to the store, and its only part that can throw is
  \<^verbatim>\<open>unblockTime\<close>.
\<close>

definition rateLimitHandler :: "int \<Rightarrow> heap \<Rightarrow> request \<Rightarrow> int \<Rightarrow> response \<times> heap" where
  "rateLimitHandler max_req h req now =
     (let key = getUserKey req;
          h1 = (if \<not> truthy (lookup h Penalties key)
                then h(PenaltyRec key := [''violations'' \<mapsto> Num 0, ''blockedUntil'' \<mapsto> Num 0],
                       Penalties := (h Penalties)(key \<mapsto> Ref (PenaltyRec key)))
                else h);
          h2 = put_prop h1 (lookup h1 Penalties key) ''violations''
                 (js_add (get_prop h1 (lookup h1 Penalties key) ''violations'') (Num 1));
          blockMs = computeBlockMs (get_prop h2 (lookup h2 Penalties key) ''violations'');
          h3 = put_prop h2 (lookup h2 Penalties key) ''blockedUntil'' (Num (now + blockMs));
          blockMinutes = humanMinutes (Num blockMs);
          h4 = snd (updateReputation h3 key (- 10) now);
          msgEn = ExceededEn max_req blockMinutes;
          msgAr = (if blockMinutes = Num 1 then ExceededArOne max_req
                   else ExceededAr max_req blockMinutes)
      in (if valid_time (get_prop h4 (lookup h4 Penalties key) ''blockedUntil'')
          then RateLimited429 (if isArabic req then msgAr else msgEn) max_req blockMinutes
                 (get_prop h4 (lookup h4 Penalties key) ''violations'')
                 (get_prop h4 (lookup h4 Penalties key) ''blockedUntil'')
                 (getReputation h4 key)
                 (isTorVpn req)
          else Thrown RangeError, h4))"

section \<open>Window counter\<close>

text \<open>
  The source builds its limiters with \<^verbatim>\<open>rateLimit({windowMs, max, keyGenerator, handler})\<close>
  from the library express-rate-limit, whose code is not part of the repository's
  sources.
\<close>

record counter =
  hits :: int
  windowEnd :: int

record limiter_config =
  windowMs :: int
  max_requests :: int

type_synonym window = "string \<rightharpoonup> counter"

text \<open>
  Modelled from the spec: the Window Counter of section 4.3, \<open>recordAndCheck\<close>, which
  the sources do not contain. The spec asks for a count per key and action class since
  the current window began, lets a fixed window start afresh once \<open>now\<close> has passed the
  window's end, counts the triggering request itself, and reports \<open>exceeded\<close> when the
  count exceeds \<open>maxRequests\<close>.
\<close>

definition recordAndCheck :: "limiter_config \<Rightarrow> window \<Rightarrow> string \<Rightarrow> int \<Rightarrow> window \<times> int \<times> bool" where
  "recordAndCheck cfg w key now =
     (let fresh = \<lparr>hits = 0, windowEnd = now + windowMs cfg\<rparr>;
          c = (case w key of Some c \<Rightarrow> if now < windowEnd c then c else fresh | None \<Rightarrow> fresh);
          c' = c\<lparr>hits := hits c + 1\<rparr>
      in (w(key \<mapsto> c'), hits c', max_requests cfg < hits c'))"

text \<open>The flags that a series of requests of one key gets, in order.\<close>

fun exceeded_flags :: "limiter_config \<Rightarrow> window \<Rightarrow> string \<Rightarrow> int list \<Rightarrow> bool list" where
  "exceeded_flags cfg w key [] = []"
| "exceeded_flags cfg w key (t # ts) =
     (case recordAndCheck cfg w key t of
        (w', n, exceeded) \<Rightarrow> exceeded # exceeded_flags cfg w' key ts)"

definition reportLimiter :: limiter_config where
  "reportLimiter = \<lparr>windowMs = 24 * 60 * 60 * 1000, max_requests = 5\<rparr>"

definition browseLimiter :: limiter_config where
  "browseLimiter = \<lparr>windowMs = 60 * 60 * 1000, max_requests = 100\<rparr>"

definition uploadLimiter :: limiter_config where
  "uploadLimiter = \<lparr>windowMs = 24 * 60 * 60 * 1000, max_requests = 10\<rparr>"

section \<open>Routes\<close>

text \<open>
  The process state: the object store and one window counter for each limiter. A request
  is handled at one reading \<open>now\<close> of the clock.
\<close>

record server =
  objects :: heap
  reportWindow :: window
  browseWindow :: window
  uploadWindow :: window

definition start :: server where
  "start = \<lparr>objects = init, reportWindow = Map.empty, browseWindow = Map.empty,
             uploadWindow = Map.empty\<rparr>"

text \<open>
  \<^verbatim>\<open>app.post(path, checkBlocked, limiter, operation)\<close>: Express runs the three in this
  order and stops at the first that answers instead of calling \<^verbatim>\<open>next()\<close>. The limiter
  answers through the handler of \<^verbatim>\<open>rateLimitHandlerFactory(max)\<close>.
\<close>

definition guarded ::
  "limiter_config \<Rightarrow> (heap \<Rightarrow> request \<Rightarrow> int \<Rightarrow> response \<times> heap) \<Rightarrow>
   heap \<Rightarrow> window \<Rightarrow> request \<Rightarrow> int \<Rightarrow> response \<times> heap \<times> window"
where
  "guarded cfg operation h w req now =
     (case checkBlocked h req now of
        (Respond r, h1) \<Rightarrow> (r, h1, w)
      | (Next, h1) \<Rightarrow>
          (case recordAndCheck cfg w (getUserKey req) now of
             (w', n, exceeded) \<Rightarrow>
               if exceeded
               then (case rateLimitHandler (max_requests cfg) h1 req now of (r, h2) \<Rightarrow> (r, h2, w'))
               else (case operation h1 req now of (r, h2) \<Rightarrow> (r, h2, w'))))"

definition report_operation :: "heap \<Rightarrow> request \<Rightarrow> int \<Rightarrow> response \<times> heap" where
  "report_operation h req now =
     (let h1 = snd (updateReputation h (getUserKey req) 5 now)
      in (Ok200 (Some (if isArabic req then ReportReceivedAr else ReportReceivedEn))
            (Some (getReputation h1 (getUserKey req))) (isTorVpn req), h1))"

definition browse_operation :: "heap \<Rightarrow> request \<Rightarrow> int \<Rightarrow> response \<times> heap" where
  "browse_operation h req now = (Ok200 None None (isTorVpn req), h)"

definition upload_operation :: "heap \<Rightarrow> request \<Rightarrow> int \<Rightarrow> response \<times> heap" where
  "upload_operation h req now =
     (let h1 = snd (updateReputation h (getUserKey req) 2 now)
      in (Ok200 (Some (if isArabic req then UploadedAr else UploadedEn))
            (Some (getReputation h1 (getUserKey req))) (isTorVpn req), h1))"

text \<open>\<^verbatim>\<open>app.use(detectTorVpn)\<close> runs before every route.\<close>

definition post_report :: "server \<Rightarrow> request \<Rightarrow> int \<Rightarrow> response \<times> server" where
  "post_report s req now =
     (case guarded reportLimiter report_operation (objects s) (reportWindow s) (detectTorVpn req) now of
        (r, h, w) \<Rightarrow> (r, s\<lparr>objects := h, reportWindow := w\<rparr>))"

definition get_browse :: "server \<Rightarrow> request \<Rightarrow> int \<Rightarrow> response \<times> server" where
  "get_browse s req now =
     (case guarded browseLimiter browse_operation (objects s) (browseWindow s) (detectTorVpn req) now of
        (r, h, w) \<Rightarrow> (r, s\<lparr>objects := h, browseWindow := w\<rparr>))"

definition post_upload :: "server \<Rightarrow> request \<Rightarrow> int \<Rightarrow> response \<times> server" where
  "post_upload s req now =
     (case guarded uploadLimiter upload_operation (objects s) (uploadWindow s) (detectTorVpn req) now of
        (r, h, w) \<Rightarrow> (r, s\<lparr>objects := h, uploadWindow := w\<rparr>))"

text \<open>
  \<^verbatim>\<open>GET /admin/penalties\<close> serialises the own properties of the two tables, and
  \<^verbatim>\<open>POST /admin/clear\<close> deletes the own property of each table under \<^verbatim>\<open>req.body.user\<close>.
\<close>

definition admin_penalties :: "heap \<Rightarrow> props \<times> props" where
  "admin_penalties h = (h Penalties, h Reputation)"

definition admin_clear :: "heap \<Rightarrow> string \<Rightarrow> response \<times> heap" where
  "admin_clear h user =
     (if user = [] then (BadRequest400 UserRequired, h)
      else (Cleared200 user,
            h(Penalties := (h Penalties)(user := None),
              Reputation := (h Reputation)(user := None))))"

section \<open>Sample requests and states\<close>

definition alice :: request where
  "alice = \<lparr>headers = [''x-user-id'' \<mapsto> ''alice''], ipKey = ''203.0.113.7'', isTorVpn = Some False\<rparr>"

text \<open>The store after the first violation of \<open>alice\<close>, at time 0.\<close>

definition alice_blocked :: heap where
  "alice_blocked = snd (rateLimitHandler 5 init alice 0)"

text \<open>A client that names itself after a member of \<^verbatim>\<open>Object.prototype\<close>.\<close>

definition mallory :: request where
  "mallory = \<lparr>headers = [''x-user-id'' \<mapsto> ''constructor''], ipKey = ''203.0.113.7'',
               isTorVpn = Some False\<rparr>"

text \<open>
  A client that names itself \<^verbatim>\<open>__proto__\<close>, and one that names itself after a field of
  the records.
\<close>

definition proto_client :: request where
  "proto_client = \<lparr>headers = [''x-user-id'' \<mapsto> ''__proto__''], ipKey = ''203.0.113.7'',
                    isTorVpn = Some False\<rparr>"

definition field_client :: request where
  "field_client = \<lparr>headers = [''x-user-id'' \<mapsto> ''blockedUntil''], ipKey = ''203.0.113.7'',
                    isTorVpn = Some False\<rparr>"

definition stamp_client :: request where
  "stamp_client = \<lparr>headers = [''x-user-id'' \<mapsto> ''lastUpdated''], ipKey = ''203.0.113.7'',
                    isTorVpn = Some False\<rparr>"

text \<open>A request whose \<^verbatim>\<open>Via\<close> header has an empty value.\<close>

definition empty_via :: request where
  "empty_via = \<lparr>headers = [''via'' \<mapsto> []], ipKey = ''203.0.113.7'', isTorVpn = None\<rparr>"

section \<open>Records, invariant and operations\<close>

text \<open>\<^verbatim>\<open>penalties[key].violations\<close> and \<^verbatim>\<open>penalties[key].blockedUntil\<close>.\<close>

definition violations_of :: "heap \<Rightarrow> string \<Rightarrow> jsval" where
  "violations_of h key = get_prop h (lookup h Penalties key) ''violations''"

definition blockedUntil_of :: "heap \<Rightarrow> string \<Rightarrow> jsval" where
  "blockedUntil_of h key = get_prop h (lookup h Penalties key) ''blockedUntil''"

text \<open>
  The key has a record of its own in \<^verbatim>\<open>penalties\<close>, as the handler leaves it: a count of
  at least one and a timestamp.
\<close>

definition penalty_record :: "heap \<Rightarrow> string \<Rightarrow> bool" where
  "penalty_record h k \<longleftrightarrow>
     h Penalties k = Some (Ref (PenaltyRec k))
     \<and> (\<exists>n b. h (PenaltyRec k) ''violations'' = Some (Num n) \<and> 1 \<le> n
              \<and> h (PenaltyRec k) ''blockedUntil'' = Some (Num b))"

text \<open>The key has a record of its own in \<^verbatim>\<open>reputation\<close>, with a score from 0 to 200.\<close>

definition reputation_record :: "heap \<Rightarrow> string \<Rightarrow> bool" where
  "reputation_record h k \<longleftrightarrow>
     h Reputation k = Some (Ref (ReputationRec k))
     \<and> (\<exists>s t. h (ReputationRec k) ''score'' = Some (Num s) \<and> 0 \<le> s \<and> s \<le> 200
              \<and> h (ReputationRec k) ''lastUpdated'' = Some (Num t))"

text \<open>
  The invariant of the store: every own property of a table is such a record, and the
  properties added to \<^verbatim>\<open>Object.prototype\<close> are not objects.
\<close>

definition well_formed :: "heap \<Rightarrow> bool" where
  "well_formed h \<longleftrightarrow>
     (\<forall>k. h Penalties k = None \<or> penalty_record h k)
   \<and> (\<forall>k. h Reputation k = None \<or> reputation_record h k)
   \<and> (\<forall>name r. h ObjectPrototype name \<noteq> Some (Ref r))"

text \<open>
  The store after the first two statements of the handler, which create the record
  where the read finds none and count the violation.
\<close>

definition counted :: "heap \<Rightarrow> string \<Rightarrow> heap" where
  "counted h key =
     (let h1 = (if \<not> truthy (lookup h Penalties key)
                then h(PenaltyRec key := [''violations'' \<mapsto> Num 0, ''blockedUntil'' \<mapsto> Num 0],
                       Penalties := (h Penalties)(key \<mapsto> Ref (PenaltyRec key)))
                else h)
      in put_prop h1 (lookup h1 Penalties key) ''violations''
           (js_add (get_prop h1 (lookup h1 Penalties key) ''violations'') (Num 1)))"

text \<open>
  The store after the first part of the handler, up to the assignment of
  \<^verbatim>\<open>blockedUntil\<close> and before the call of \<^verbatim>\<open>updateReputation\<close>.
\<close>

definition penalise :: "heap \<Rightarrow> string \<Rightarrow> int \<Rightarrow> heap" where
  "penalise h key now =
     (let h1 = (if \<not> truthy (lookup h Penalties key)
                then h(PenaltyRec key := [''violations'' \<mapsto> Num 0, ''blockedUntil'' \<mapsto> Num 0],
                       Penalties := (h Penalties)(key \<mapsto> Ref (PenaltyRec key)))
                else h);
          h2 = put_prop h1 (lookup h1 Penalties key) ''violations''
                 (js_add (get_prop h1 (lookup h1 Penalties key) ''violations'') (Num 1));
          blockMs = computeBlockMs (get_prop h2 (lookup h2 Penalties key) ''violations'')
      in put_prop h2 (lookup h2 Penalties key) ''blockedUntil'' (Num (now + blockMs)))"

text \<open>
  The functions of the source that change the store, as operations on it: the three of
  the protected routes and the reset of \<^verbatim>\<open>POST /admin/clear\<close>.
\<close>

datatype operation =
    CheckBlocked request int
  | RateLimit int request int
  | UpdateReputation string int int
  | AdminClear string

fun apply_op :: "heap \<Rightarrow> operation \<Rightarrow> heap" where
  "apply_op h (CheckBlocked req now) = snd (checkBlocked h req now)"
| "apply_op h (RateLimit max_req req now) = snd (rateLimitHandler max_req h req now)"
| "apply_op h (UpdateReputation key change now) = snd (updateReputation h key change now)"
| "apply_op h (AdminClear user) = snd (admin_clear h user)"

section \<open>The sample states\<close>

lemma alice_key: "getUserKey alice = ''alice''"
  by (simp add: getUserKey_def alice_def)

lemma alice_entry: "lookup alice_blocked Penalties ''alice'' = Ref (PenaltyRec ''alice'')"
  unfolding alice_blocked_def by code_simp

lemma alice_until:
  "get_prop alice_blocked (Ref (PenaltyRec ''alice'')) ''blockedUntil'' = Num 60000"
  unfolding alice_blocked_def by code_simp

lemma alice_is_blocked:
  "truthy (lookup alice_blocked Penalties (getUserKey alice))"
  "get_prop alice_blocked (lookup alice_blocked Penalties (getUserKey alice)) ''blockedUntil''
     = Num 60000"
  by (simp_all add: alice_key alice_entry alice_until)

section \<open>Suspicion signal\<close>

text \<open>
  C9, as the source has it. \<^verbatim>\<open>detectTorVpn\<close> changes nothing of the request but the
  flag, and it has no access to the tables. The flag is true exactly when one of
  \<^verbatim>\<open>x-forwarded-for\<close>, \<^verbatim>\<open>via\<close> and \<^verbatim>\<open>x-tor-exit-node\<close> is present with a value that
  is not empty: the source tests the values for truthiness, and the empty string is
  falsy. A list of several hops is a value that is not empty, so the second test of
  the source adds nothing.
\<close>

theorem detectTorVpn_flag:
  "detectTorVpn req =
     req\<lparr>isTorVpn := Some ((\<exists>v. headers req ''x-forwarded-for'' = Some v \<and> v \<noteq> [])
                          \<or> (\<exists>v. headers req ''via'' = Some v \<and> v \<noteq> [])
                          \<or> (\<exists>v. headers req ''x-tor-exit-node'' = Some v \<and> v \<noteq> []))\<rparr>"
  by (auto simp: detectTorVpn_def truthy_header_def Let_def split: option.splits)

text \<open>
  C9, as the claim states it, fails: a request that carries the relay header \<^verbatim>\<open>Via\<close>
  with an empty value has the header present and is not flagged.
\<close>

theorem detectTorVpn_empty_via:
  "headers empty_via ''via'' \<noteq> None \<and> isTorVpn (detectTorVpn empty_via) = Some False"
  by (simp add: detectTorVpn_def truthy_header_def Let_def empty_via_def)

section \<open>Admission gate\<close>

lemma checkBlocked_blocked:
  assumes "truthy (lookup h Penalties (getUserKey req))"
    and "get_prop h (lookup h Penalties (getUserKey req)) ''blockedUntil'' = Num b"
    and "b \<noteq> 0" and "now < b"
  shows "checkBlocked h req now = (Respond (blocked_response req (Num (b - now))), h)"
  using assms by (simp add: checkBlocked_def Let_def)

lemma checkBlocked_repeat_blocked:
  assumes "truthy (lookup h Penalties (getUserKey req))"
    and "get_prop h (lookup h Penalties (getUserKey req)) ''blockedUntil'' = Num b"
    and "b \<noteq> 0" and "\<forall>t\<in>set ts. t < b"
  shows "checkBlocked_repeat h req ts
           = (map (\<lambda>t. Respond (blocked_response req (Num (b - t)))) ts, h)"
  using assms by (induction ts) (simp_all add: checkBlocked_blocked)

lemma checkBlocked_Respond_same:
  "fst (checkBlocked h req now) = Respond r \<Longrightarrow> checkBlocked h req now = (Respond r, h)"
  by (auto simp: checkBlocked_def Let_def split: if_splits)

lemma blocked_response_Num:
  "blocked_response req (Num ms)
     = Blocked403
         (if isArabic req
          then (if (2 * ms + 60000) div 120000 = 1 then BlockedArOne
                else BlockedAr (Num ((2 * ms + 60000) div 120000)))
          else BlockedEn (Num ((2 * ms + 60000) div 120000)))
         (Num ((2 * ms + 60000) div 120000))
         (Num ((2 * ms + 1000) div 2000))"
  by (simp add: blocked_response_def humanMinutes_def Let_def)

text \<open>
  C3, as the source has it. Let the key of the request have an entry in \<^verbatim>\<open>penalties\<close>
  whose \<^verbatim>\<open>blockedUntil\<close> is set, to \<open>b\<close>. Then \<^verbatim>\<open>checkBlocked\<close> answers 403 exactly when
  \<open>now < b\<close>, and the store it leaves is then the store it found. The answer does not
  carry \<open>b - now\<close> itself: its \<^verbatim>\<open>blockedForMinutes\<close> is \<open>(b - now) / 60000\<close> and its
  \<^verbatim>\<open>remainingSeconds\<close> is \<open>(b - now) / 1000\<close>, each rounded to the nearest integer with
  a half rounded up, and its message names the same minutes. Any number of calls before
  \<open>b\<close> are all answered so and leave the store, and with it the violation count, as it
  was.
\<close>

theorem checkBlocked_while_blocked:
  assumes "truthy (lookup h Penalties (getUserKey req))"
    and "get_prop h (lookup h Penalties (getUserKey req)) ''blockedUntil'' = Num b"
    and "b \<noteq> 0"
  shows "let minutes = (\<lambda>ms. (2 * ms + 60000) div 120000);
             seconds = (\<lambda>ms. (2 * ms + 1000) div 2000);
             msg = (\<lambda>ms. if isArabic req
                          then (if minutes ms = 1 then BlockedArOne
                                else BlockedAr (Num (minutes ms)))
                          else BlockedEn (Num (minutes ms)));
             deny = (\<lambda>t. Respond (Blocked403 (msg (b - t)) (Num (minutes (b - t)))
                                    (Num (seconds (b - t)))))
         in fst (checkBlocked h req now) = (if now < b then deny now else Next)
          \<and> (now < b \<longrightarrow> snd (checkBlocked h req now) = h)
          \<and> ((\<forall>t\<in>set ts. t < b) \<longrightarrow> checkBlocked_repeat h req ts = (map deny ts, h))"
  using assms checkBlocked_repeat_blocked[of h req b ts]
  by (simp add: checkBlocked_def Let_def blocked_response_Num)

lemma alice_not_arabic: "\<not> isArabic alice"
  by (simp add: isArabic_def alice_def)

theorem checkBlocked_while_blocked_witness:
  "truthy (lookup alice_blocked Penalties (getUserKey alice))
   \<and> get_prop alice_blocked (lookup alice_blocked Penalties (getUserKey alice)) ''blockedUntil''
       = Num 60000
   \<and> (60000 :: int) \<noteq> 0
   \<and> checkBlocked alice_blocked alice 59000
       = (Respond (Blocked403 (BlockedEn (Num 0)) (Num 0) (Num 1)), alice_blocked)
   \<and> fst (checkBlocked alice_blocked alice 60000) = Next
   \<and> checkBlocked_repeat alice_blocked alice [10, 20000, 59999]
       = ([Respond (Blocked403 (BlockedEn (Num 1)) (Num 1) (Num 60)),
           Respond (Blocked403 (BlockedEn (Num 1)) (Num 1) (Num 40)),
           Respond (Blocked403 (BlockedEn (Num 0)) (Num 0) (Num 0))], alice_blocked)"
proof -
  note blocked = alice_is_blocked
  have a: "fst (checkBlocked alice_blocked alice 59000)
             = Respond (Blocked403 (BlockedEn (Num 0)) (Num 0) (Num 1))"
       "snd (checkBlocked alice_blocked alice 59000) = alice_blocked"
    using checkBlocked_while_blocked[OF blocked, of 59000 "[]"]
    by (simp_all add: Let_def alice_not_arabic)
  have b: "fst (checkBlocked alice_blocked alice 60000) = Next"
    using checkBlocked_while_blocked[OF blocked, of 60000 "[]"] by (simp add: Let_def)
  have c: "checkBlocked_repeat alice_blocked alice [10, 20000, 59999]
       = ([Respond (Blocked403 (BlockedEn (Num 1)) (Num 1) (Num 60)),
           Respond (Blocked403 (BlockedEn (Num 1)) (Num 1) (Num 40)),
           Respond (Blocked403 (BlockedEn (Num 0)) (Num 0) (Num 0))], alice_blocked)"
    using checkBlocked_while_blocked[OF blocked, of 0 "[10, 20000, 59999]"]
    by (simp add: Let_def alice_not_arabic)
  from a have "checkBlocked alice_blocked alice 59000
                 = (Respond (Blocked403 (BlockedEn (Num 0)) (Num 0) (Num 1)), alice_blocked)"
    by (simp add: prod_eq_iff)
  with blocked b c show ?thesis by simp
qed

text \<open>
  C3, as the claim states it, fails: the answer does not give the remaining milliseconds.
  With 1 ms and with 2 ms of the block left the answers are the same, 0 minutes and 0
  seconds.
\<close>

theorem checkBlocked_hides_milliseconds:
  "get_prop alice_blocked (lookup alice_blocked Penalties (getUserKey alice)) ''blockedUntil''
     = Num 60000
   \<and> checkBlocked alice_blocked alice 59999
       = (Respond (Blocked403 (BlockedEn (Num 0)) (Num 0) (Num 0)), alice_blocked)
   \<and> checkBlocked alice_blocked alice 59998
       = (Respond (Blocked403 (BlockedEn (Num 0)) (Num 0) (Num 0)), alice_blocked)"
proof -
  note blocked = alice_is_blocked
  have "checkBlocked alice_blocked alice 59999
          = (Respond (blocked_response alice (Num (60000 - 59999))), alice_blocked)"
    by (rule checkBlocked_blocked[OF blocked]) simp_all
  moreover have "checkBlocked alice_blocked alice 59998
          = (Respond (blocked_response alice (Num (60000 - 59998))), alice_blocked)"
    by (rule checkBlocked_blocked[OF blocked]) simp_all
  ultimately show ?thesis
    using blocked(2) by (simp add: blocked_response_Num alice_not_arabic)
qed

text \<open>
  C10. The minutes of a 403 answer are \<^verbatim>\<open>Math.round(remainingMs / 60000)\<close>, the integer
  \<open>m\<close> nearest to \<open>(b - now) / 60000\<close> with a half rounded up. So a block with less than
  30000 ms left is still answered with 403, and the answer says 0 minutes; from 30000 ms
  on it says at least 1.
\<close>

theorem blocked_minutes_rounded:
  assumes "truthy (lookup h Penalties (getUserKey req))"
    and "get_prop h (lookup h Penalties (getUserKey req)) ''blockedUntil'' = Num b"
    and "b \<noteq> 0" and "now < b"
  shows "\<exists>r m. checkBlocked h req now = (Respond r, h) \<and> blockedForMinutes r = Num m
           \<and> 60000 * m - 30000 \<le> b - now \<and> b - now < 60000 * m + 30000
           \<and> (if b - now < 30000 then m = 0 else 1 \<le> m)"
proof -
  define x where "x = b - now"
  define m where "m = (2 * x + 60000) div (2 * 60000)"
  define q where "q = (2 * x + 60000) mod (2 * 60000)"
  have r: "checkBlocked h req now = (Respond (blocked_response req (Num x)), h)"
    unfolding x_def using assms by (rule checkBlocked_blocked)
  have minutes: "blockedForMinutes (blocked_response req (Num x)) = Num m"
    by (simp add: blocked_response_def humanMinutes_def Let_def m_def)
  have pos: "0 < x" using assms(4) by (simp add: x_def)
  have eq: "120000 * m + q = 2 * x + 60000"
    unfolding q_def m_def using mult_div_mod_eq[of "2 * 60000" "2 * x + 60000"] by simp
  have q: "0 \<le> q" "q < 120000" unfolding q_def by simp_all
  have b1: "60000 * m - 30000 \<le> x" using eq q by linarith
  have b2: "x < 60000 * m + 30000" using eq q by linarith
  have b3: "x < 30000 \<Longrightarrow> m = 0" using pos by (simp add: m_def div_pos_pos_trivial)
  have b4: "\<not> x < 30000 \<Longrightarrow> 1 \<le> m" using b2 by linarith
  show ?thesis using r minutes b1 b2 b3 b4 unfolding x_def
    by (intro exI[of _ "blocked_response req (Num (b - now))"] exI[of _ m]) simp
qed

theorem blocked_minutes_rounded_witness:
  "truthy (lookup alice_blocked Penalties (getUserKey alice))
   \<and> get_prop alice_blocked (lookup alice_blocked Penalties (getUserKey alice)) ''blockedUntil''
       = Num 60000
   \<and> (60000 :: int) \<noteq> 0 \<and> (30001 :: int) < 60000
   \<and> (\<exists>r. checkBlocked alice_blocked alice 30001 = (Respond r, alice_blocked)
            \<and> blockedForMinutes r = Num 0)"
proof -
  note blocked = alice_is_blocked
  from blocked_minutes_rounded[OF blocked, of 30001] obtain r m where
    "checkBlocked alice_blocked alice 30001 = (Respond r, alice_blocked)"
    "blockedForMinutes r = Num m" "m = 0"
    by auto
  with blocked show ?thesis by auto
qed

text \<open>
  C5. When \<^verbatim>\<open>checkBlocked\<close> answers a request to a protected route, that answer, a 403,
  is the answer of the route, and the whole state of the process is what it was: the
  limiter has not counted the request, the handler of the route has not run, and the two
  tables are untouched.
\<close>

theorem deny_changes_nothing:
  assumes "fst (checkBlocked (objects s) (detectTorVpn req) now) = Respond r"
  shows "post_report s req now = (r, s) \<and> get_browse s req now = (r, s)
       \<and> post_upload s req now = (r, s)
       \<and> (\<exists>msg minutes seconds. r = Blocked403 msg minutes seconds)"
proof -
  have "checkBlocked (objects s) (detectTorVpn req) now = (Respond r, objects s)"
    using assms by (rule checkBlocked_Respond_same)
  moreover have "\<exists>msg minutes seconds. r = Blocked403 msg minutes seconds"
    using assms by (auto simp: checkBlocked_def blocked_response_def Let_def split: if_splits)
  ultimately show ?thesis
    by (simp add: post_report_def get_browse_def post_upload_def guarded_def)
qed

lemma detectTorVpn_fields:
  "headers (detectTorVpn req) = headers req" "ipKey (detectTorVpn req) = ipKey req"
  by (simp_all add: detectTorVpn_def Let_def)

lemma getUserKey_detectTorVpn: "getUserKey (detectTorVpn req) = getUserKey req"
  unfolding getUserKey_def detectTorVpn_fields by (rule refl)

theorem deny_changes_nothing_witness:
  "fst (checkBlocked (objects (start\<lparr>objects := alice_blocked\<rparr>)) (detectTorVpn alice) 59000)
     = Respond (blocked_response (detectTorVpn alice) (Num 1000))
   \<and> post_report (start\<lparr>objects := alice_blocked\<rparr>) alice 59000
       = (blocked_response (detectTorVpn alice) (Num 1000), start\<lparr>objects := alice_blocked\<rparr>)
   \<and> get_browse (start\<lparr>objects := alice_blocked\<rparr>) alice 59000
       = (blocked_response (detectTorVpn alice) (Num 1000), start\<lparr>objects := alice_blocked\<rparr>)
   \<and> post_upload (start\<lparr>objects := alice_blocked\<rparr>) alice 59000
       = (blocked_response (detectTorVpn alice) (Num 1000), start\<lparr>objects := alice_blocked\<rparr>)"
proof -
  have "checkBlocked alice_blocked (detectTorVpn alice) 59000
          = (Respond (blocked_response (detectTorVpn alice) (Num (60000 - 59000))), alice_blocked)"
    by (rule checkBlocked_blocked) (simp_all add: getUserKey_detectTorVpn alice_is_blocked)
  then have gate:
    "fst (checkBlocked (objects (start\<lparr>objects := alice_blocked\<rparr>)) (detectTorVpn alice) 59000)
       = Respond (blocked_response (detectTorVpn alice) (Num 1000))"
    by simp
  from deny_changes_nothing[OF gate] gate show ?thesis by simp
qed

section \<open>The invariant of the store\<close>

lemmas wf_defs = well_formed_def penalty_record_def reputation_record_def

lemmas store_defs = lookup_def inherited_def put_prop_def get_prop_def

lemma well_formed_init: "well_formed init"
  by (simp add: wf_defs init_def)

lemma builtin_Ref:
  "builtin k = Ref r \<Longrightarrow>
     k \<noteq> ''score'' \<and> k \<noteq> ''lastUpdated'' \<and> k \<noteq> ''violations'' \<and> k \<noteq> ''blockedUntil''
     \<and> (r = ObjectPrototype \<or> r = Member k)"
  by (auto simp: builtin_def object_prototype_members_def split: if_splits)

lemma builtin_cases: "builtin k = Undefined \<or> builtin k = Ref ObjectPrototype \<or> builtin k = Ref (Member k)"
  by (simp add: builtin_def)

lemma js_add_no_Ref: "js_add a b \<noteq> Ref r"
  by (cases "(a, b)" rule: js_add.cases) simp_all

lemma Math_max_no_Ref: "Math_max a b \<noteq> Ref r"
  by (cases "(a, b)" rule: Math_max.cases) simp_all

lemma upd_absent:
  assumes "\<not> truthy (lookup h Reputation k)"
  shows "snd (updateReputation h k c now) =
           h(ReputationRec k := [''score'' \<mapsto> Num (max 0 (min 200 (100 + c))), ''lastUpdated'' \<mapsto> Num now],
             Reputation := (h Reputation)(k \<mapsto> Ref (ReputationRec k)))"
  using assms
  apply (simp add: updateReputation_def Let_def store_defs)
  apply (auto simp: fun_eq_iff)
  done

lemma upd_record:
  assumes "h Reputation k = Some (Ref (ReputationRec k))" "h (ReputationRec k) ''score'' = Some (Num s)"
  shows "snd (updateReputation h k c now) =
           h(ReputationRec k := (h (ReputationRec k))(''score'' \<mapsto> Num (max 0 (min 200 (s + c))), ''lastUpdated'' \<mapsto> Num now))"
  using assms
  apply (simp add: updateReputation_def Let_def store_defs)
  apply (auto simp: fun_eq_iff)
  done

lemma upd_prim:
  assumes "lookup h Reputation k = Num n" "n \<noteq> 0"
  shows "snd (updateReputation h k c now) = h"
  using assms
  by (simp add: updateReputation_def Let_def put_prop_def)

lemma upd_builtin:
  assumes "h Reputation k = None" "h ObjectPrototype k = None" "builtin k = Ref r"
  shows "(\<forall>r'. r' \<noteq> r \<longrightarrow> snd (updateReputation h k c now) r' = h r')
       \<and> (\<forall>name v. snd (updateReputation h k c now) r name = Some v \<longrightarrow>
              h r name = Some v \<or> (\<forall>q. v \<noteq> Ref q))"
proof -
  from builtin_Ref[OF assms(3)] have k: "k \<noteq> ''score''" "k \<noteq> ''lastUpdated''"
    and r: "r = ObjectPrototype \<or> r = Member k" by simp_all
  from r show ?thesis
  proof
    assume "r = ObjectPrototype"
    then show ?thesis using assms k
      by (simp add: updateReputation_def Let_def store_defs js_add_no_Ref Math_max_no_Ref)
  next
    assume "r = Member k"
    then show ?thesis using assms k
      by (simp add: updateReputation_def Let_def store_defs js_add_no_Ref Math_max_no_Ref)
  qed
qed

lemma reputation_cases:
  assumes "well_formed h"
  obtains (own) s where "h Reputation k = Some (Ref (ReputationRec k))"
                        "h (ReputationRec k) ''score'' = Some (Num s)" "0 \<le> s" "s \<le> 200"
  | (absent) "h Reputation k = None" "\<not> truthy (lookup h Reputation k)"
  | (prim) n where "h Reputation k = None" "lookup h Reputation k = Num n" "n \<noteq> 0"
  | (builtin) r where "h Reputation k = None" "h ObjectPrototype k = None" "builtin k = Ref r"
proof (cases "h Reputation k")
  case (Some v)
  with assms have "reputation_record h k" unfolding well_formed_def by (metis option.distinct(1))
  then show ?thesis using own unfolding reputation_record_def by blast
next
  case None
  note tbl = this
  show ?thesis
  proof (cases "h ObjectPrototype k")
    case (Some v)
    with assms have "\<forall>r. v \<noteq> Ref r" unfolding well_formed_def by blast
    moreover have "lookup h Reputation k = v" using tbl Some by (simp add: store_defs)
    ultimately show ?thesis using tbl absent prim by (cases v) auto
  next
    case None
    then have l: "lookup h Reputation k = builtin k" using tbl by (simp add: store_defs)
    from builtin_cases[of k] show ?thesis using tbl None l absent builtin by auto
  qed
qed

lemma wf_own:
  assumes "well_formed h" "h Reputation k = Some (Ref (ReputationRec k))" "0 \<le> s" "s \<le> 200"
  shows "well_formed (h(ReputationRec k := (h (ReputationRec k))(''score'' \<mapsto> Num s, ''lastUpdated'' \<mapsto> Num now)))"
  using assms unfolding wf_defs by auto

lemma wf_new:
  assumes "well_formed h" "0 \<le> s" "s \<le> 200"
  shows "well_formed (h(ReputationRec k := [''score'' \<mapsto> Num s, ''lastUpdated'' \<mapsto> Num now],
             Reputation := (h Reputation)(k \<mapsto> Ref (ReputationRec k))))"
  using assms unfolding wf_defs by auto

lemma wf_frame:
  assumes "well_formed h"
    and "\<forall>r'. r' \<noteq> r \<longrightarrow> h' r' = h r'"
    and "\<forall>name v. h' r name = Some v \<longrightarrow> h r name = Some v \<or> (\<forall>q. v \<noteq> Ref q)"
    and "r = ObjectPrototype \<or> r = Member m"
  shows "well_formed h'"
proof -
  have t: "h' Penalties = h Penalties" "h' Reputation = h Reputation"
    "\<And>k. h' (PenaltyRec k) = h (PenaltyRec k)" "\<And>k. h' (ReputationRec k) = h (ReputationRec k)"
    using assms(2,4) by auto
  have p: "h' ObjectPrototype name \<noteq> Some (Ref q)" for name q
  proof (cases "r = ObjectPrototype")
    case True
    from assms(1) have "h ObjectPrototype name \<noteq> Some (Ref q)" unfolding well_formed_def by blast
    with assms(3) True show ?thesis by blast
  next
    case False
    with assms(2) have "h' ObjectPrototype = h ObjectPrototype" by simp
    with assms(1) show ?thesis unfolding well_formed_def by simp
  qed
  have pr: "penalty_record h' k = penalty_record h k" for k
    unfolding penalty_record_def t by (rule refl)
  have rr: "reputation_record h' k = reputation_record h k" for k
    unfolding reputation_record_def t by (rule refl)
  from assms(1) p show ?thesis unfolding well_formed_def pr rr t by blast
qed

lemma wf_updateReputation:
  assumes "well_formed h"
  shows "well_formed (snd (updateReputation h k c now))"
  using assms
proof (cases rule: reputation_cases[where k = k])
  case (own s)
  show ?thesis unfolding upd_record[OF own(1,2)] using assms own(1)
    by (intro wf_own) simp_all
next
  case absent
  show ?thesis unfolding upd_absent[OF absent(2)] using assms
    by (intro wf_new) simp_all
next
  case (prim n)
  then show ?thesis using assms by (simp add: upd_prim)
next
  case (builtin r)
  note fr = upd_builtin[of h k r c now, OF builtin]
  from builtin_Ref[OF builtin(3)] have r: "r = ObjectPrototype \<or> r = Member k" by simp
  show ?thesis
    by (rule wf_frame[of h r "snd (updateReputation h k c now)" k,
          OF assms conjunct1[OF fr] conjunct2[OF fr] r])
qed

lemma updateReputation_penalties:
  assumes "well_formed h"
  shows "snd (updateReputation h k c now) Penalties = h Penalties
       \<and> snd (updateReputation h k c now) (PenaltyRec k') = h (PenaltyRec k')"
  using assms
proof (cases rule: reputation_cases[where k = k])
  case (own s)
  show ?thesis unfolding upd_record[OF own(1,2)] by simp
next
  case absent
  show ?thesis unfolding upd_absent[OF absent(2)] by simp
next
  case (prim n)
  then show ?thesis by (simp add: upd_prim)
next
  case (builtin r)
  note fr = upd_builtin[of h k r c now, OF builtin]
  from builtin_Ref[OF builtin(3)] have "r = ObjectPrototype \<or> r = Member k" by simp
  then show ?thesis using fr by auto
qed

lemma handler_penalise:
  "snd (rateLimitHandler m h req now)
     = snd (updateReputation (penalise h (getUserKey req) now) (getUserKey req) (- 10) now)"
  by (simp add: rateLimitHandler_def penalise_def Let_def)

lemma penalties_cases:
  assumes "well_formed h"
  obtains (own) n b where "h Penalties k = Some (Ref (PenaltyRec k))"
                        "h (PenaltyRec k) ''violations'' = Some (Num n)" "1 \<le> n"
                        "h (PenaltyRec k) ''blockedUntil'' = Some (Num b)"
  | (absent) "h Penalties k = None" "\<not> truthy (lookup h Penalties k)"
  | (prim) n where "h Penalties k = None" "lookup h Penalties k = Num n" "n \<noteq> 0"
  | (builtin) r where "h Penalties k = None" "h ObjectPrototype k = None" "builtin k = Ref r"
proof (cases "h Penalties k")
  case (Some v)
  with assms have "penalty_record h k" unfolding well_formed_def by (metis option.distinct(1))
  then show ?thesis using own unfolding penalty_record_def by blast
next
  case None
  note tbl = this
  show ?thesis
  proof (cases "h ObjectPrototype k")
    case (Some v)
    with assms have "\<forall>r. v \<noteq> Ref r" unfolding well_formed_def by blast
    moreover have "lookup h Penalties k = v" using tbl Some by (simp add: store_defs)
    ultimately show ?thesis using tbl absent prim by (cases v) auto
  next
    case None
    then have l: "lookup h Penalties k = builtin k" using tbl by (simp add: store_defs)
    from builtin_cases[of k] show ?thesis using tbl None l absent builtin by auto
  qed
qed

lemma pen_absent:
  assumes "\<not> truthy (lookup h Penalties k)"
  shows "penalise h k now =
           h(PenaltyRec k := [''violations'' \<mapsto> Num 1, ''blockedUntil'' \<mapsto> Num (now + 60000)],
             Penalties := (h Penalties)(k \<mapsto> Ref (PenaltyRec k)))"
  using assms
  apply (simp add: penalise_def Let_def store_defs computeBlockMs_def)
  apply (auto simp: fun_eq_iff)
  done

lemma pen_own:
  assumes "h Penalties k = Some (Ref (PenaltyRec k))" "h (PenaltyRec k) ''violations'' = Some (Num n)"
  shows "penalise h k now =
           h(PenaltyRec k := (h (PenaltyRec k))(''violations'' \<mapsto> Num (n + 1),
                ''blockedUntil'' \<mapsto> Num (now + computeBlockMs (Num (n + 1)))))"
  using assms
  by (simp add: penalise_def Let_def store_defs)

lemma pen_prim:
  assumes "lookup h Penalties k = Num n" "n \<noteq> 0"
  shows "penalise h k now = h"
  using assms
  by (simp add: penalise_def Let_def put_prop_def)

lemma pen_builtin:
  assumes "h Penalties k = None" "h ObjectPrototype k = None" "builtin k = Ref r"
  shows "(\<forall>r'. r' \<noteq> r \<longrightarrow> penalise h k now r' = h r')
       \<and> (\<forall>name v. penalise h k now r name = Some v \<longrightarrow>
              h r name = Some v \<or> (\<forall>q. v \<noteq> Ref q))"
proof -
  from builtin_Ref[OF assms(3)] have k: "k \<noteq> ''violations''" "k \<noteq> ''blockedUntil''"
    and r: "r = ObjectPrototype \<or> r = Member k" by simp_all
  from r show ?thesis
  proof
    assume "r = ObjectPrototype"
    then show ?thesis using assms k
      by (simp add: penalise_def Let_def store_defs js_add_no_Ref)
  next
    assume "r = Member k"
    then show ?thesis using assms k
      by (simp add: penalise_def Let_def store_defs js_add_no_Ref)
  qed
qed

lemma wf_pen_own:
  assumes "well_formed h" "h Penalties k = Some (Ref (PenaltyRec k))" "1 \<le> n"
  shows "well_formed (h(PenaltyRec k := (h (PenaltyRec k))(''violations'' \<mapsto> Num n, ''blockedUntil'' \<mapsto> Num b)))"
  using assms unfolding wf_defs by auto

lemma wf_pen_new:
  assumes "well_formed h" "1 \<le> n"
  shows "well_formed (h(PenaltyRec k := [''violations'' \<mapsto> Num n, ''blockedUntil'' \<mapsto> Num b],
             Penalties := (h Penalties)(k \<mapsto> Ref (PenaltyRec k))))"
  using assms unfolding wf_defs by auto

lemma wf_penalise:
  assumes "well_formed h"
  shows "well_formed (penalise h k now)"
  using assms
proof (cases rule: penalties_cases[where k = k])
  case (own n b)
  show ?thesis unfolding pen_own[OF own(1,2)] using assms own(1,3)
    by (intro wf_pen_own) simp_all
next
  case absent
  show ?thesis unfolding pen_absent[OF absent(2)] using assms
    by (intro wf_pen_new) simp_all
next
  case (prim n)
  then show ?thesis using assms by (simp add: pen_prim)
next
  case (builtin r)
  note fr = pen_builtin[of h k r now, OF builtin]
  from builtin_Ref[OF builtin(3)] have r: "r = ObjectPrototype \<or> r = Member k" by simp
  show ?thesis
    by (rule wf_frame[of h r "penalise h k now" k,
          OF assms conjunct1[OF fr] conjunct2[OF fr] r])
qed

lemma wf_rateLimitHandler:
  "well_formed h \<Longrightarrow> well_formed (snd (rateLimitHandler m h req now))"
  unfolding handler_penalise by (intro wf_updateReputation wf_penalise)


lemma checkBlocked_heap:
  "snd (checkBlocked h req now) = h
   \<or> snd (checkBlocked h req now)
       = put_prop h (lookup h Penalties (getUserKey req)) ''blockedUntil'' (Num 0)"
  by (simp add: checkBlocked_def Let_def)

lemma put_blockedUntil:
  assumes "well_formed h"
  shows "well_formed (put_prop h (lookup h Penalties k) ''blockedUntil'' (Num b))
       \<and> (\<forall>k'. penalty_record h k' \<longrightarrow>
              penalty_record (put_prop h (lookup h Penalties k) ''blockedUntil'' (Num b)) k'
              \<and> put_prop h (lookup h Penalties k) ''blockedUntil'' (Num b) (PenaltyRec k') ''violations''
                  = h (PenaltyRec k') ''violations'')"
  using assms
proof (cases rule: penalties_cases[where k = k])
  case (own n b')
  have l: "lookup h Penalties k = Ref (PenaltyRec k)" using own(1) by (simp add: lookup_def)
  have eq: "put_prop h (lookup h Penalties k) ''blockedUntil'' (Num b)
          = h(PenaltyRec k := (h (PenaltyRec k))(''violations'' \<mapsto> Num n, ''blockedUntil'' \<mapsto> Num b))"
    using own(2) unfolding l by (auto simp: put_prop_def fun_eq_iff)
  have "well_formed (h(PenaltyRec k := (h (PenaltyRec k))(''violations'' \<mapsto> Num n, ''blockedUntil'' \<mapsto> Num b)))"
    using assms own(1,3) by (intro wf_pen_own) simp_all
  moreover have "\<forall>k'. penalty_record h k' \<longrightarrow>
      penalty_record (h(PenaltyRec k := (h (PenaltyRec k))(''violations'' \<mapsto> Num n, ''blockedUntil'' \<mapsto> Num b))) k'
      \<and> (h(PenaltyRec k := (h (PenaltyRec k))(''violations'' \<mapsto> Num n, ''blockedUntil'' \<mapsto> Num b))) (PenaltyRec k') ''violations''
                  = h (PenaltyRec k') ''violations''"
    using own(2,3) unfolding penalty_record_def by auto
  ultimately show ?thesis unfolding eq by blast
next
  case absent
  then have "put_prop h (lookup h Penalties k) ''blockedUntil'' (Num b) = h"
    by (cases "lookup h Penalties k") (simp_all add: put_prop_def)
  with assms show ?thesis by simp
next
  case (prim n)
  then have "put_prop h (lookup h Penalties k) ''blockedUntil'' (Num b) = h"
    by (simp add: put_prop_def)
  with assms show ?thesis by simp
next
  case (builtin r)
  have l: "lookup h Penalties k = Ref r" using builtin by (simp add: store_defs)
  from builtin_Ref[OF builtin(3)] have r: "r = ObjectPrototype \<or> r = Member k" by simp
  let ?h = "put_prop h (Ref r) ''blockedUntil'' (Num b)"
  have f1: "\<forall>r'. r' \<noteq> r \<longrightarrow> ?h r' = h r'" by (simp add: put_prop_def)
  have f2: "\<forall>name v. ?h r name = Some v \<longrightarrow> h r name = Some v \<or> (\<forall>q. v \<noteq> Ref q)"
    by (simp add: put_prop_def)
  have wf: "well_formed ?h" by (rule wf_frame[of h r ?h k, OF assms f1 f2 r])
  have t: "?h Penalties = h Penalties" "\<And>k'. ?h (PenaltyRec k') = h (PenaltyRec k')"
    using f1 r by auto
  have "penalty_record ?h k' = penalty_record h k'" for k'
    unfolding penalty_record_def t by (rule refl)
  with wf t show ?thesis unfolding l by simp
qed

lemma wf_checkBlocked:
  "well_formed h \<Longrightarrow> well_formed (snd (checkBlocked h req now))"
  using checkBlocked_heap[of h req now] put_blockedUntil[of h "getUserKey req" 0] by auto

lemma wf_admin_clear:
  "well_formed h \<Longrightarrow> well_formed (snd (admin_clear h user))"
  unfolding wf_defs admin_clear_def by auto

lemma wf_apply_op: "well_formed h \<Longrightarrow> well_formed (apply_op h op)"
  by (cases op)
     (simp_all add: wf_checkBlocked wf_rateLimitHandler wf_updateReputation wf_admin_clear)

text \<open>The count of a record after one operation.\<close>

lemma penalise_count:
  assumes "well_formed h" "penalty_record h key" "h (PenaltyRec key) ''violations'' = Some (Num n)"
  shows "penalty_record (penalise h k now) key
       \<and> penalise h k now (PenaltyRec key) ''violations''
           = Some (Num (if k = key then n + 1 else n))"
  using assms(1)
proof (cases rule: penalties_cases[where k = k])
  case (own m b)
  show ?thesis unfolding pen_own[OF own(1,2)] using assms(2,3) own(2,3)
    unfolding penalty_record_def by auto
next
  case absent
  with assms(2) have "k \<noteq> key" unfolding penalty_record_def by auto
  then show ?thesis unfolding pen_absent[OF absent(2)] using assms(2,3)
    unfolding penalty_record_def by auto
next
  case (prim m)
  from prim(1) assms(2) have "k \<noteq> key" unfolding penalty_record_def by auto
  with prim assms(2,3) show ?thesis by (simp add: pen_prim)
next
  case (builtin r)
  from builtin(1) assms(2) have ne: "k \<noteq> key" unfolding penalty_record_def by auto
  note fr = pen_builtin[of h k r now, OF builtin]
  from builtin_Ref[OF builtin(3)] have r: "r = ObjectPrototype \<or> r = Member k" by simp
  have t: "penalise h k now Penalties = h Penalties"
          "\<And>k'. penalise h k now (PenaltyRec k') = h (PenaltyRec k')"
    using fr r by auto
  have "penalty_record (penalise h k now) key = penalty_record h key"
    unfolding penalty_record_def t by (rule refl)
  with assms(2,3) ne t show ?thesis by simp
qed

lemma updateReputation_record:
  assumes "well_formed h"
  shows "penalty_record (snd (updateReputation h k c now)) key = penalty_record h key"
  unfolding penalty_record_def
  using updateReputation_penalties[OF assms, of k c now] by simp




section \<open>Expiry of a block and the violation count\<close>

lemma penalty_record_reads:
  assumes "penalty_record h key"
  shows "lookup h Penalties key = Ref (PenaltyRec key)"
    and "violations_of h key = the (h (PenaltyRec key) ''violations'')"
    and "blockedUntil_of h key = the (h (PenaltyRec key) ''blockedUntil'')"
  using assms unfolding penalty_record_def violations_of_def blockedUntil_of_def
  by (auto simp: lookup_def get_prop_def)








text \<open>
  The theorem of C4 speaks of a key with a record of its own. A key that resolves to an
  inherited property has none, and the reset of an expired block can miss it: after a
  violation of the client \<^verbatim>\<open>__proto__\<close> at time 1000, which sets
  \<^verbatim>\<open>Object.prototype.blockedUntil\<close>, \<^verbatim>\<open>penalties["blockedUntil"]\<close> is the number 3601000.
  The client \<^verbatim>\<open>blockedUntil\<close> is refused at 2000 and let pass at 4000000, but the
  assignment of the source is one to a property of a number, which has no effect, and
  \<^verbatim>\<open>blockedUntil\<close> stays as it was. This is the defect of C1 again.
\<close>

lemma expiry_of_inherited_block:
  "fst (checkBlocked (snd (rateLimitHandler 5 init proto_client 1000)) field_client 2000)
     = Respond (Blocked403 (BlockedEn (Num 60)) (Num 60) (Num 3599))
   \<and> fst (checkBlocked (snd (rateLimitHandler 5 init proto_client 1000)) field_client 4000000)
       = Next
   \<and> blockedUntil_of
         (snd (checkBlocked (snd (rateLimitHandler 5 init proto_client 1000)) field_client 4000000))
         ''blockedUntil''
       = Num 3601000"
  by code_simp

section \<open>Reputation\<close>

lemma updateReputation_fst: "fst (updateReputation h key delta now) = Undefined"
  by (simp add: updateReputation_def Let_def)

text \<open>
  C6, as the source has it. Let the store satisfy the invariant and let the key not
  resolve to a truthy property inherited from \<^verbatim>\<open>Object.prototype\<close>. Then, with \<open>s\<close> the
  score that \<^verbatim>\<open>getReputation\<close> reports before the call (100 when the key has no
  record), \<^verbatim>\<open>updateReputation\<close> leaves a record of the key whose score is \<open>s + delta\<close>
  clamped to \<open>[0, 200]\<close> and whose \<^verbatim>\<open>lastUpdated\<close> is \<open>now\<close>. The call itself returns
  \<^verbatim>\<open>undefined\<close>; the callers read the new score with \<^verbatim>\<open>getReputation\<close>.
\<close>

theorem updateReputation_adjusts:
  assumes "well_formed h" and "h Reputation key = None \<longrightarrow> \<not> truthy (inherited h key)"
  shows "\<exists>s. getReputation h key = Num s
        \<and> (if h Reputation key = None then s = 100 else reputation_record h key)
        \<and> fst (updateReputation h key delta now) = Undefined
        \<and> reputation_record (snd (updateReputation h key delta now)) key
        \<and> snd (updateReputation h key delta now) (ReputationRec key) ''score''
            = Some (Num (max 0 (min 200 (s + delta))))
        \<and> snd (updateReputation h key delta now) (ReputationRec key) ''lastUpdated''
            = Some (Num now)
        \<and> getReputation (snd (updateReputation h key delta now)) key
            = Num (max 0 (min 200 (s + delta)))"
  using assms(1)
proof (cases rule: reputation_cases[where k = key])
  case (own s)
  have rec: "reputation_record h key"
    using assms(1) own(1) unfolding well_formed_def by (metis option.distinct(1))
  have g: "getReputation h key = Num s"
    using own(1,2) by (simp add: getReputation_def lookup_def get_prop_def)
  show ?thesis
    using own rec g
    by (intro exI[of _ s])
       (simp add: updateReputation_fst upd_record[OF own(1,2)] reputation_record_def
          getReputation_def lookup_def get_prop_def)
next
  case absent
  have g: "getReputation h key = Num 100"
    using absent(2) by (simp add: getReputation_def)
  show ?thesis
    using absent(1) g
    by (intro exI[of _ 100])
       (simp add: updateReputation_fst upd_absent[OF absent(2)] reputation_record_def
          getReputation_def lookup_def get_prop_def)
next
  case (prim n)
  then have "truthy (inherited h key)" by (simp add: lookup_def)
  with assms(2) prim(1) show ?thesis by simp
next
  case (builtin r)
  then have "truthy (inherited h key)" by (simp add: inherited_def)
  with assms(2) builtin(1) show ?thesis by simp
qed

theorem updateReputation_adjusts_witness:
  "well_formed init \<and> init Reputation ''alice'' = None \<and> \<not> truthy (inherited init ''alice'')
   \<and> getReputation init ''alice'' = Num 100
   \<and> fst (updateReputation init ''alice'' 5 0) = Undefined
   \<and> reputation_record (snd (updateReputation init ''alice'' 5 0)) ''alice''
   \<and> getReputation (snd (updateReputation init ''alice'' 5 0)) ''alice'' = Num 105"
proof -
  have a: "init Reputation ''alice'' = None" by (simp add: init_def)
  have b: "\<not> truthy (inherited init ''alice'')"
    by (simp add: inherited_def init_def builtin_def object_prototype_members_def)
  have g: "getReputation init ''alice'' = Num 100" by code_simp
  from updateReputation_adjusts[OF well_formed_init, of "''alice''" 5 0] a b g
  have "fst (updateReputation init ''alice'' 5 0) = Undefined
   \<and> reputation_record (snd (updateReputation init ''alice'' 5 0)) ''alice''
   \<and> getReputation (snd (updateReputation init ''alice'' 5 0)) ''alice'' = Num 105"
    by auto
  with well_formed_init a b g show ?thesis by simp
qed

text \<open>
  C6, as the claim states it, fails: the value of a call of \<^verbatim>\<open>updateReputation\<close> is not
  the resulting score.
\<close>

theorem updateReputation_returns_undefined:
  "fst (updateReputation init ''alice'' 5 0) = Undefined
   \<and> getReputation (snd (updateReputation init ''alice'' 5 0)) ''alice'' = Num 105"
  by code_simp

text \<open>
  C7 holds for a key that has no record and does not resolve to an inherited property:
  \<^verbatim>\<open>getReputation\<close> reports 100, and being a function of the store it creates nothing.
\<close>

lemma getReputation_default:
  assumes "h Reputation key = None" "\<not> truthy (inherited h key)"
  shows "getReputation h key = Num 100"
  using assms by (simp add: getReputation_def lookup_def)

text \<open>
  C7 at the key \<^verbatim>\<open>constructor\<close>, in the store of a fresh process: the snapshot of
  \<^verbatim>\<open>GET /admin/penalties\<close> shows no record at all, and \<^verbatim>\<open>getReputation\<close> reports
  \<^verbatim>\<open>undefined\<close>, not 100, because \<^verbatim>\<open>reputation["constructor"]\<close> is the inherited
  function \<^verbatim>\<open>Object\<close>, which is truthy and has no \<^verbatim>\<open>score\<close>.
\<close>

theorem getReputation_constructor:
  "admin_penalties init = (Map.empty, Map.empty) \<and> getReputation init ''constructor'' = Undefined"
  by (simp add: admin_penalties_def init_def getReputation_def lookup_def inherited_def
        builtin_def object_prototype_members_def get_prop_def)

text \<open>
  C2 holds for the records: in every store that the operations produce from the store of
  a fresh process, a key with a record of its own has a score from 0 to 200.
\<close>

lemma reachable_well_formed: "well_formed (foldl apply_op init ops)"
proof -
  have "well_formed h \<Longrightarrow> well_formed (foldl apply_op h ops)" for h
    by (induction ops arbitrary: h) (simp_all add: wf_apply_op)
  then show ?thesis using well_formed_init by blast
qed

lemma scores_of_records_in_range:
  assumes "foldl apply_op init ops Reputation key \<noteq> None"
  shows "\<exists>s. getReputation (foldl apply_op init ops) key = Num s \<and> 0 \<le> s \<and> s \<le> 200"
proof -
  let ?h = "foldl apply_op init ops"
  have "reputation_record ?h key"
    using reachable_well_formed[of ops] assms unfolding well_formed_def by metis
  then show ?thesis
    unfolding reputation_record_def by (auto simp: getReputation_def lookup_def get_prop_def)
qed

text \<open>
  C2 at the key \<^verbatim>\<open>constructor\<close>, in the store of a fresh process: \<^verbatim>\<open>updateReputation\<close>
  finds the inherited function \<^verbatim>\<open>Object\<close> instead of a missing record, creates no
  record, adds the delta to \<^verbatim>\<open>undefined\<close> and stores the result, \<^verbatim>\<open>NaN\<close>, which the
  clamp does not change. The first \<^verbatim>\<open>POST /report\<close> of such a client is answered with
  that score.
\<close>

theorem score_constructor:
  "getUserKey mallory = ''constructor''
   \<and> getReputation (snd (updateReputation init ''constructor'' 5 0)) ''constructor'' = NaN
   \<and> snd (updateReputation init ''constructor'' 5 0) Reputation ''constructor'' = None
   \<and> fst (post_report start mallory 0) = Ok200 (Some ReportReceivedEn) (Some NaN) (Some False)"
  by code_simp

section \<open>Penalty escalation\<close>

text \<open>
  The handler runs when \<^verbatim>\<open>checkBlocked\<close> has let the request pass and the limiter reports
  that the request exceeds the limit; its answer is the answer of the route.
\<close>

lemma exceeded_runs_handler:
  assumes "checkBlocked (objects s) (detectTorVpn req) now = (Next, h1)"
    and "recordAndCheck reportLimiter (reportWindow s) (getUserKey req) now = (w', n, True)"
  shows "post_report s req now
           = (fst (rateLimitHandler 5 h1 (detectTorVpn req) now),
              s\<lparr>objects := snd (rateLimitHandler 5 h1 (detectTorVpn req) now), reportWindow := w'\<rparr>)"
  using assms
  by (simp add: post_report_def guarded_def getUserKey_detectTorVpn reportLimiter_def
        split: prod.splits)

lemma handler_fields:
  assumes "valid_time (blockedUntil_of (snd (rateLimitHandler m h req now)) (getUserKey req))"
  shows "violations (fst (rateLimitHandler m h req now))
           = violations_of (snd (rateLimitHandler m h req now)) (getUserKey req)"
    and "unblockTime (fst (rateLimitHandler m h req now))
           = blockedUntil_of (snd (rateLimitHandler m h req now)) (getUserKey req)"
    and "reputation (fst (rateLimitHandler m h req now))
           = getReputation (snd (rateLimitHandler m h req now)) (getUserKey req)"
  using assms
  by (simp_all add: rateLimitHandler_def Let_def violations_of_def blockedUntil_of_def)

lemma handler_minutes:
  assumes "valid_time (blockedUntil_of (snd (rateLimitHandler m h req now)) (getUserKey req))"
  shows "blockedForMinutes (fst (rateLimitHandler m h req now))
           = humanMinutes (Num (computeBlockMs
               (violations_of (counted h (getUserKey req)) (getUserKey req))))"
  using assms
  by (simp add: rateLimitHandler_def counted_def Let_def violations_of_def blockedUntil_of_def)

lemma minutes_own:
  assumes "h Penalties (getUserKey req) = Some (Ref (PenaltyRec (getUserKey req)))"
    and "h (PenaltyRec (getUserKey req)) ''violations'' = Some (Num n)"
    and "valid_time (blockedUntil_of (snd (rateLimitHandler m h req now)) (getUserKey req))"
  shows "blockedForMinutes (fst (rateLimitHandler m h req now))
           = humanMinutes (Num (computeBlockMs (Num (n + 1))))"
  unfolding handler_minutes[OF assms(3)] using assms(1,2)
  by (simp add: counted_def Let_def store_defs violations_of_def)

lemma minutes_absent:
  assumes "\<not> truthy (lookup h Penalties (getUserKey req))"
    and "valid_time (blockedUntil_of (snd (rateLimitHandler m h req now)) (getUserKey req))"
  shows "blockedForMinutes (fst (rateLimitHandler m h req now))
           = humanMinutes (Num (computeBlockMs (Num 1)))"
  unfolding handler_minutes[OF assms(2)] using assms(1)
  by (simp add: counted_def Let_def store_defs violations_of_def)

lemma record_after_update:
  assumes "well_formed p" "penalty_record p k'"
  shows "violations_of (snd (updateReputation p k c now)) k' = violations_of p k'"
    and "blockedUntil_of (snd (updateReputation p k c now)) k' = blockedUntil_of p k'"
proof -
  have r: "penalty_record (snd (updateReputation p k c now)) k'"
    using assms by (simp add: updateReputation_record)
  have e: "snd (updateReputation p k c now) (PenaltyRec k') = p (PenaltyRec k')"
    using updateReputation_penalties[OF assms(1), of k c now k'] by simp
  show "violations_of (snd (updateReputation p k c now)) k' = violations_of p k'"
    by (simp add: penalty_record_reads(2)[OF r] penalty_record_reads(2)[OF assms(2)] e)
  show "blockedUntil_of (snd (updateReputation p k c now)) k' = blockedUntil_of p k'"
    by (simp add: penalty_record_reads(3)[OF r] penalty_record_reads(3)[OF assms(2)] e)
qed

lemma tiers:
  "humanMinutes (Num (computeBlockMs (Num n)))
     = Num (if n = 1 then 1 else if n = 2 then 5 else 60)"
  "computeBlockMs (Num n) = (if n = 1 then 60000 else if n = 2 then 300000 else 3600000)"
  by (simp_all add: humanMinutes_def computeBlockMs_def)

text \<open>
  C1 holds for a key that does not resolve to a truthy inherited property, at a time
  \<open>now\<close> that \<^verbatim>\<open>Date\<close> can hold: with \<open>n\<close> the count of the key before (0 when it has
  no record), the handler answers with the count \<open>n + 1\<close> and blocks for 1 minute when
  that is 1, for 5 minutes when it is 2 and for 60 minutes otherwise, counted from
  \<open>now\<close>, whatever the time of the violation before.
\<close>

lemma handler_escalates:
  assumes "well_formed h"
    and "h Penalties (getUserKey req) = None \<longrightarrow> \<not> truthy (inherited h (getUserKey req))"
    and "0 \<le> now" "now \<le> 8000000000000000"
  shows "\<exists>n. (if h Penalties (getUserKey req) = None then n = 0
              else violations_of h (getUserKey req) = Num n)
        \<and> violations (fst (rateLimitHandler m h req now)) = Num (n + 1)
        \<and> blockedForMinutes (fst (rateLimitHandler m h req now))
            = Num (if n + 1 = 1 then 1 else if n + 1 = 2 then 5 else 60)
        \<and> unblockTime (fst (rateLimitHandler m h req now))
            = Num (now + (if n + 1 = 1 then 60000 else if n + 1 = 2 then 300000 else 3600000))"
  using assms(1)
proof (cases rule: penalties_cases[where k = "getUserKey req"])
  case (own n b)
  let ?k = "getUserKey req"
  let ?p = "penalise h ?k now"
  let ?H = "snd (rateLimitHandler m h req now)"
  have rec: "penalty_record h ?k"
    using own unfolding penalty_record_def by blast
  have v: "violations_of h ?k = Num n"
    using penalty_record_reads(2)[OF rec] own(2) by simp
  have wf: "well_formed ?p" using assms(1) by (rule wf_penalise)
  have prec: "penalty_record ?p ?k"
    using penalise_count[OF assms(1) rec own(2), of ?k now] by simp
  have pv: "violations_of ?p ?k = Num (n + 1)"
       "blockedUntil_of ?p ?k = Num (now + computeBlockMs (Num (n + 1)))"
    using own(1) by (simp_all add: pen_own[OF own(1,2)] violations_of_def blockedUntil_of_def
                       lookup_def get_prop_def)
  have H: "violations_of ?H ?k = Num (n + 1)"
          "blockedUntil_of ?H ?k = Num (now + computeBlockMs (Num (n + 1)))"
    using pv by (simp_all add: handler_penalise record_after_update[OF wf prec])
  have valid: "valid_time (blockedUntil_of ?H ?k)"
    using assms(3,4) by (simp add: H valid_time_def tiers(2))
  show ?thesis
    using own(1) v H
    by (intro exI[of _ n])
       (simp add: handler_fields[OF valid] minutes_own[OF own(1,2) valid] tiers(2)
          humanMinutes_def)
next
  case absent
  let ?k = "getUserKey req"
  let ?p = "penalise h ?k now"
  let ?H = "snd (rateLimitHandler m h req now)"
  have wf: "well_formed ?p" using assms(1) by (rule wf_penalise)
  have prec: "penalty_record ?p ?k"
    by (simp add: pen_absent[OF absent(2)] penalty_record_def)
  have pv: "violations_of ?p ?k = Num 1"
       "blockedUntil_of ?p ?k = Num (now + 60000)"
    by (simp_all add: pen_absent[OF absent(2)] violations_of_def blockedUntil_of_def
          lookup_def get_prop_def)
  have H: "violations_of ?H ?k = Num 1" "blockedUntil_of ?H ?k = Num (now + 60000)"
    using pv by (simp_all add: handler_penalise record_after_update[OF wf prec])
  have valid: "valid_time (blockedUntil_of ?H ?k)"
    using assms(3,4) by (simp add: H valid_time_def)
  show ?thesis
    using absent(1) H
    by (intro exI[of _ 0])
       (simp add: handler_fields[OF valid] minutes_absent[OF absent(2) valid] tiers(2)
          humanMinutes_def)
next
  case (prim n)
  then have "truthy (inherited h (getUserKey req))" by (simp add: lookup_def)
  with assms(2) prim(1) show ?thesis by simp
next
  case (builtin r)
  then have "truthy (inherited h (getUserKey req))" by (simp add: inherited_def)
  with assms(2) builtin(1) show ?thesis by simp
qed

text \<open>
  The handler throws where the key resolves to an inherited number and
  \<^verbatim>\<open>Object.prototype\<close> has no \<^verbatim>\<open>blockedUntil\<close>: after a report of the client
  \<^verbatim>\<open>__proto__\<close> at time 1000, \<^verbatim>\<open>penalties["lastUpdated"]\<close> is the number 1000, the
  assignments of the handler have no effect, and \<^verbatim>\<open>new Date(undefined).toISOString()\<close>
  raises the error.
\<close>

lemma handler_throws:
  "fst (rateLimitHandler 5 (snd (updateReputation init ''__proto__'' 5 1000)) stamp_client 2000)
     = Thrown RangeError"
  by code_simp

text \<open>
  C1 at the key \<^verbatim>\<open>constructor\<close>, in the store of a fresh process: the handler finds the
  inherited function \<^verbatim>\<open>Object\<close> instead of a missing record, so it creates none, the
  count becomes \<^verbatim>\<open>undefined + 1\<close>, that is \<^verbatim>\<open>NaN\<close>, and \<^verbatim>\<open>computeBlockMs\<close> falls
  through to its last case: the first violation of this client is answered with a block
  of 60 minutes.
\<close>

theorem first_violation_constructor:
  "getUserKey mallory = ''constructor''
   \<and> admin_penalties init = (Map.empty, Map.empty)
   \<and> blockedForMinutes (fst (rateLimitHandler 5 init mallory 0)) = Num 60
   \<and> unblockTime (fst (rateLimitHandler 5 init mallory 0)) = Num 3600000
   \<and> violations (fst (rateLimitHandler 5 init mallory 0)) = NaN"
proof -
  have "admin_penalties init = (Map.empty, Map.empty)"
    by (simp add: admin_penalties_def init_def)
  moreover have "getUserKey mallory = ''constructor''
   \<and> blockedForMinutes (fst (rateLimitHandler 5 init mallory 0)) = Num 60
   \<and> unblockTime (fst (rateLimitHandler 5 init mallory 0)) = Num 3600000
   \<and> violations (fst (rateLimitHandler 5 init mallory 0)) = NaN"
    by code_simp
  ultimately show ?thesis by simp
qed

section \<open>Window counter\<close>

lemma map_upt_Suc: "map f [0..<Suc n] = f 0 # map (\<lambda>i. f (Suc i)) [0..<n]"
proof -
  have "[0..<Suc n] = 0 # map Suc [0..<n]"
    by (simp add: upt_conv_Cons map_Suc_upt del: upt_Suc)
  then show ?thesis by (simp add: comp_def del: upt_Suc)
qed

lemma exceeded_flags_in_window:
  assumes "w key = Some c" "\<forall>u\<in>set ts. u < windowEnd c"
  shows "exceeded_flags cfg w key ts
           = map (\<lambda>i. max_requests cfg < hits c + int i + 1) [0..<length ts]"
  using assms
proof (induction ts arbitrary: w c)
  case Nil
  then show ?case by simp
next
  case (Cons t ts)
  let ?c = "c\<lparr>hits := hits c + 1\<rparr>"
  have step: "recordAndCheck cfg w key t = (w(key \<mapsto> ?c), hits c + 1, max_requests cfg < hits c + 1)"
    using Cons.prems by (simp add: recordAndCheck_def Let_def)
  have ih: "exceeded_flags cfg (w(key \<mapsto> ?c)) key ts
              = map (\<lambda>i. max_requests cfg < hits ?c + int i + 1) [0..<length ts]"
    using Cons.prems by (intro Cons.IH) simp_all
  show ?case
    using step ih by (simp add: map_upt_Suc add.commute add.left_commute del: upt_Suc)
qed

text \<open>
  C8, for the window counter as the spec describes it. Let the first of a series of
  requests of one key, at time \<open>t\<close>, find no window of the key or one that has ended, and
  let the others come before \<open>t + windowMs\<close>. Then request number \<open>i + 1\<close> of the series
  is reported as exceeding exactly when \<open>maxRequests < i + 1\<close>: the first \<open>maxRequests\<close>
  requests are not, and the next one, which is itself counted, is.
\<close>

theorem window_threshold:
  assumes "\<forall>c. w key = Some c \<longrightarrow> windowEnd c \<le> t"
    and "\<forall>u\<in>set ts. u < t + windowMs cfg"
  shows "exceeded_flags cfg w key (t # ts)
           = map (\<lambda>i. max_requests cfg < int i + 1) [0..<length ts + 1]"
proof -
  let ?c = "\<lparr>hits = 1, windowEnd = t + windowMs cfg\<rparr>"
  have step: "recordAndCheck cfg w key t = (w(key \<mapsto> ?c), 1, max_requests cfg < 1)"
    using assms(1) by (cases "w key") (auto simp: recordAndCheck_def Let_def)
  have rest: "exceeded_flags cfg (w(key \<mapsto> ?c)) key ts
              = map (\<lambda>i. max_requests cfg < hits ?c + int i + 1) [0..<length ts]"
    using assms(2) by (intro exceeded_flags_in_window) simp_all
  show ?thesis
    using step rest by (simp add: map_upt_Suc add.commute add.left_commute del: upt_Suc)
qed

theorem window_threshold_witness:
  "(Map.empty :: window) ''alice'' = None
   \<and> windowMs reportLimiter = 86400000 \<and> max_requests reportLimiter = 5
   \<and> exceeded_flags reportLimiter Map.empty ''alice'' [0, 1, 2, 3, 4, 86399999]
       = [False, False, False, False, False, True]"
proof -
  have a: "\<forall>c. Map.empty ''alice'' = Some (c :: counter) \<longrightarrow> windowEnd c \<le> 0" by simp
  have b: "\<forall>u\<in>set [1, 2, 3, 4, 86399999 :: int]. u < 0 + windowMs reportLimiter"
    by (simp add: reportLimiter_def)
  have n: "[0..<length [1, 2, 3, 4, 86399999 :: int] + 1] = [0, 1, 2, 3, 4, 5]"
    by (simp add: upt_rec)
  from window_threshold[OF a b] n
  have "exceeded_flags reportLimiter Map.empty ''alice'' [0, 1, 2, 3, 4, 86399999]
       = [False, False, False, False, False, True]"
    by (simp add: reportLimiter_def)
  then show ?thesis by (simp add: reportLimiter_def)
qed

end
